theory Spec2Isabelle
  imports Main
begin

section \<open>Python text and values\<close>

text \<open>
  A Python \<open>str\<close> is a sequence of Unicode code points. A code point is modelled as a
  natural number and a \<open>str\<close> as a list of them; \<open>py\<close> turns an ASCII literal of
  HOL into such a list.
\<close>

type_synonym pychar = nat
type_synonym pystr = "pychar list"

definition py :: "string \<Rightarrow> pystr" where
  "py s = map of_char s"

text \<open>
  The characters \<open>str.strip()\<close> removes when called without an argument: the code points
  for which \<open>str.isspace\<close> holds (U+0009..U+000D, U+001C..U+0020, U+0085, U+00A0, U+1680,
  U+2000..U+200A, U+2028, U+2029, U+202F, U+205F, U+3000).
\<close>

definition isspace :: "pychar \<Rightarrow> bool" where
  "isspace c \<longleftrightarrow>
     (0x09 \<le> c \<and> c \<le> 0x0D) \<or> (0x1C \<le> c \<and> c \<le> 0x20) \<or> c = 0x85 \<or> c = 0xA0 \<or>
     c = 0x1680 \<or> (0x2000 \<le> c \<and> c \<le> 0x200A) \<or> c = 0x2028 \<or> c = 0x2029 \<or>
     c = 0x202F \<or> c = 0x205F \<or> c = 0x3000"

definition py_lstrip :: "pystr \<Rightarrow> pystr" where
  "py_lstrip s = dropWhile isspace s"

definition py_rstrip :: "pystr \<Rightarrow> pystr" where
  "py_rstrip s = rev (dropWhile isspace (rev s))"

definition py_strip :: "pystr \<Rightarrow> pystr" where
  "py_strip s = py_rstrip (py_lstrip s)"

text \<open>
  The objects that flow through the sender: text, dictionaries with text keys (kept as
  association lists, in insertion order), and \<open>PObject\<close> for any object that
  \<open>json.dumps\<close> has no encoding for (a set, a bytes object, ...).
\<close>

datatype pyval = PStr pystr | PDict "(pystr \<times> pyval) list" | PObject

section \<open>The line parser\<close>

text \<open>
  \<^verbatim>\<open>
  def log_parser(line):
      stripped_line = line.strip()
      if stripped_line:
          return {"raw_content": stripped_line}
      else:
          return None
  \<close>
\<close>

definition log_parser :: "pystr \<Rightarrow> pyval option" where
  "log_parser line =
     (let stripped_line = py_strip line
      in if stripped_line \<noteq> [] then Some (PDict [(py ''raw_content'', PStr stripped_line)])
         else None)"

section \<open>Exceptions\<close>

text \<open>
  The exceptions the file, socket and encoding operations can raise. All of them are
  subclasses of \<open>Exception\<close>. \<open>FileNotFoundError\<close> is a subclass of \<open>OSError\<close>, and
  \<open>socket.error\<close> is an alias of \<open>OSError\<close>; \<open>OSError\<close> below stands for \<open>OSError\<close> and
  its other subclasses (refused connection, timeout, permission denied, ...), and
  \<open>OtherException\<close> for any subclass of \<open>Exception\<close> not listed.
\<close>

datatype exn =
  FileNotFoundError | OSError | TypeError | OverflowError | UnicodeEncodeError | OtherException

definition is_OSError :: "exn \<Rightarrow> bool" where
  "is_OSError e \<longleftrightarrow> e = OSError \<or> e = FileNotFoundError"

section \<open>The library encoders\<close>

text \<open>
  \<open>json.dumps\<close> with its default arguments (\<open>ensure_ascii=True\<close>, separators \<open>", "\<close> and
  \<open>": "\<close>). A string is written between double quotes; backslash, double quote and the
  control characters \<open>\b \f \n \r \t\<close> get their two-character escapes; every other code
  point outside \<open>' '..'~'\<close> is written \<open>\uXXXX\<close>, as a surrogate pair above U+FFFF.
\<close>

definition hex_digit :: "nat \<Rightarrow> pychar" where
  "hex_digit d = (if d < 10 then 48 + d else 87 + d)"

definition hex4 :: "nat \<Rightarrow> pystr" where
  "hex4 n = [hex_digit (n div 4096 mod 16), hex_digit (n div 256 mod 16),
             hex_digit (n div 16 mod 16), hex_digit (n mod 16)]"

definition escape_char :: "pychar \<Rightarrow> pystr" where
  "escape_char c =
     (if c = 92 then [92, 92]
      else if c = 34 then [92, 34]
      else if c = 8 then [92, 98]
      else if c = 12 then [92, 102]
      else if c = 10 then [92, 110]
      else if c = 13 then [92, 114]
      else if c = 9 then [92, 116]
      else if 32 \<le> c \<and> c \<le> 126 then [c]
      else if c < 0x10000 then [92, 117] @ hex4 c
      else (let n = c - 0x10000;
                s1 = 0xD800 + n div 1024 mod 1024;
                s2 = 0xDC00 + n mod 1024
            in [92, 117] @ hex4 s1 @ [92, 117] @ hex4 s2))"

definition encode_basestring_ascii :: "pystr \<Rightarrow> pystr" where
  "encode_basestring_ascii s = [34] @ concat (map escape_char s) @ [34]"

fun join :: "pystr \<Rightarrow> pystr list \<Rightarrow> pystr" where
  "join sep [] = []"
| "join sep [x] = x"
| "join sep (x # y # ys) = x @ sep @ join sep (y # ys)"

fun json_dumps :: "pyval \<Rightarrow> exn + pystr"
  and dumps_items :: "(pystr \<times> pyval) list \<Rightarrow> exn + pystr list" where
  "json_dumps (PStr s) = Inr (encode_basestring_ascii s)"
| "json_dumps (PDict kvs) =
     (case dumps_items kvs of
        Inl e \<Rightarrow> Inl e
      | Inr items \<Rightarrow> Inr ([123] @ join [44, 32] items @ [125]))"
| "json_dumps PObject = Inl TypeError"
| "dumps_items [] = Inr []"
| "dumps_items ((k, v) # kvs) =
     (case json_dumps v of
        Inl e \<Rightarrow> Inl e
      | Inr s \<Rightarrow>
          (case dumps_items kvs of
             Inl e \<Rightarrow> Inl e
           | Inr items \<Rightarrow> Inr ((encode_basestring_ascii k @ [58, 32] @ s) # items)))"

text \<open>
  \<open>str.encode('utf-8')\<close>: one to four bytes per code point; a surrogate code point has no
  encoding and raises \<open>UnicodeEncodeError\<close>.
\<close>

type_synonym byte = nat
type_synonym bytes = "byte list"

definition utf8_char :: "pychar \<Rightarrow> exn + bytes" where
  "utf8_char c =
     (if c < 0x80 then Inr [c]
      else if c < 0x800 then Inr [0xC0 + c div 64, 0x80 + c mod 64]
      else if 0xD800 \<le> c \<and> c \<le> 0xDFFF then Inl UnicodeEncodeError
      else if c < 0x10000 then
        Inr [0xE0 + c div 4096, 0x80 + c div 64 mod 64, 0x80 + c mod 64]
      else
        Inr [0xF0 + c div 262144, 0x80 + c div 4096 mod 64, 0x80 + c div 64 mod 64,
             0x80 + c mod 64])"

fun encode_utf8 :: "pystr \<Rightarrow> exn + bytes" where
  "encode_utf8 [] = Inr []"
| "encode_utf8 (c # cs) =
     (case utf8_char c of
        Inl e \<Rightarrow> Inl e
      | Inr b \<Rightarrow> (case encode_utf8 cs of Inl e \<Rightarrow> Inl e | Inr bs \<Rightarrow> Inr (b @ bs)))"

section \<open>The environment\<close>

text \<open>
  What the program prints, by message; the text of an exception is kept as the exception.
\<close>

datatype msg =
    MsgNoData
  | MsgConnected pystr int
  | MsgSerializeError pyval exn
  | MsgSocketSendError exn
  | MsgSent nat
  | MsgConnectFailed pystr int exn
  | MsgUnexpected exn
  | MsgFileNotFound pystr
  | MsgReadError pystr exn
  | MsgFolderNotFound pystr
  | MsgProvideValidPath
  | MsgScanning pystr
  | MsgNoFiles pystr
  | MsgFound nat
  | MsgProgress nat nat
  | MsgProcessingComplete
  | MsgNoLines
  | MsgPrepared nat
  | MsgWillRetry nat
  | MsgComplete

text \<open>
  The effects of a run, in the order they happen. A network call is recorded with its
  outcome: \<open>None\<close> when it succeeded, the exception when it raised.
\<close>

datatype event =
    Print msg
  | Connect pystr int "exn option"
  | SendAll bytes "exn option"
  | Close
  | Sleep nat

text \<open>
  What opening and reading a file does: the open fails with an exception, or the file
  opens and its iterator yields the given lines (each with its line end, as Python yields
  them); with \<open>Some (k, e)\<close> the read raises \<open>e\<close> once \<open>k\<close> lines have been
  yielded, if the file has that many.
\<close>

datatype file_state = OpenFails exn | Readable "pystr list" "(nat \<times> exn) option"

text \<open>
  The world the program runs in: the file system (\<open>os.path.isdir\<close>, the triples
  \<open>os.walk\<close> yields, and the files), the network (\<open>net_plan w k\<close> is the outcome of the
  \<open>k\<close>-th network call, counted by \<open>net_calls\<close>), and the effects so far.
\<close>

record world =
  fs_isdir :: "pystr \<Rightarrow> bool"
  fs_walk :: "pystr \<Rightarrow> (pystr \<times> pystr list \<times> pystr list) list"
  fs_open :: "pystr \<Rightarrow> file_state"
  net_plan :: "nat \<Rightarrow> exn option"
  net_calls :: nat
  trace :: "event list"

definition print_msg :: "msg \<Rightarrow> world \<Rightarrow> world" where
  "print_msg m w = w\<lparr>trace := trace w @ [Print m]\<rparr>"

text \<open>
  Standard output encodes UTF-8 with the strict error handler, as it does under a UTF-8
  locale, so printing a text that holds a lone surrogate raises \<open>UnicodeEncodeError\<close>
  and writes nothing. A path that \<open>os.walk\<close> or the command line decoded from bytes
  that are not UTF-8 holds such code points. \<open>print_path m path\<close> is the print of a
  message \<open>m\<close> whose text interpolates \<open>path\<close>. The other messages are ASCII, or
  escape what they interpolate (the \<open>repr\<close> of a record, the text of an exception), or
  interpolate a host name, and a host name with a lone surrogate raises in name resolution
  before any message with it is printed: for them \<open>print_msg\<close> is the whole effect.
\<close>

definition print_path :: "msg \<Rightarrow> pystr \<Rightarrow> world \<Rightarrow> (exn + unit) \<times> world" where
  "print_path m path w =
     (case encode_utf8 path of
        Inl e \<Rightarrow> (Inl e, w)
      | Inr b \<Rightarrow> (Inr (), print_msg m w))"

definition sleep :: "nat \<Rightarrow> world \<Rightarrow> world" where
  "sleep n w = w\<lparr>trace := trace w @ [Sleep n]\<rparr>"

definition create_connection :: "pystr \<Rightarrow> int \<Rightarrow> world \<Rightarrow> (exn + unit) \<times> world" where
  "create_connection host port w =
     (let outcome = net_plan w (net_calls w);
          w' = w\<lparr>net_calls := Suc (net_calls w),
                  trace := trace w @ [Connect host port outcome]\<rparr>
      in (case outcome of Some e \<Rightarrow> Inl e | None \<Rightarrow> Inr (), w'))"

definition sendall :: "bytes \<Rightarrow> world \<Rightarrow> (exn + unit) \<times> world" where
  "sendall buf w =
     (let outcome = net_plan w (net_calls w);
          w' = w\<lparr>net_calls := Suc (net_calls w),
                  trace := trace w @ [SendAll buf outcome]\<rparr>
      in (case outcome of Some e \<Rightarrow> Inl e | None \<Rightarrow> Inr (), w'))"

definition sock_close :: "world \<Rightarrow> world" where
  "sock_close w = w\<lparr>trace := trace w @ [Close]\<rparr>"

section \<open>The sender\<close>

text \<open>
  The inner loop of \<open>send_to_logstash\<close> (lines 43 to 50): every item of the batch is
  serialized and a newline appended; an item whose serialization raises \<open>TypeError\<close> or
  \<open>OverflowError\<close> is reported and skipped, any other exception propagates.
\<close>

fun serialize_batch :: "pyval list \<Rightarrow> pystr \<Rightarrow> world \<Rightarrow> (exn + pystr) \<times> world" where
  "serialize_batch [] batch_str w = (Inr batch_str, w)"
| "serialize_batch (data # rest) batch_str w =
     (case json_dumps data of
        Inr s \<Rightarrow> serialize_batch rest (batch_str @ s @ [10]) w
      | Inl json_err \<Rightarrow>
          if json_err = TypeError \<or> json_err = OverflowError
          then serialize_batch rest batch_str (print_msg (MsgSerializeError data json_err) w)
          else (Inl json_err, w))"

text \<open>
  The loop \<open>for i in range(0, total_to_send, batch_size)\<close> (lines 41 to 64) with
  \<open>batch_size = 100\<close>, followed by lines 66 and 67. The result is \<open>Inr b\<close> when the
  function returns \<open>b\<close> and \<open>Inl e\<close> when \<open>e\<close> leaves the \<open>with\<close> block.
\<close>

function send_batches :: "pyval list \<Rightarrow> nat \<Rightarrow> nat \<Rightarrow> world \<Rightarrow> (exn + bool) \<times> world" where
  "send_batches data_list i sent_count w =
     (if i < length data_list then
        (let batch = take 100 (drop i data_list)
         in case serialize_batch batch [] w of
              (Inl e, w1) \<Rightarrow> (Inl e, w1)
            | (Inr batch_str, w1) \<Rightarrow>
                if batch_str = [] then send_batches data_list (i + 100) sent_count w1
                else
                  (case (case encode_utf8 batch_str of
                           Inl e \<Rightarrow> (Inl e, w1)
                         | Inr buf \<Rightarrow> sendall buf w1) of
                     (Inr u, w2) \<Rightarrow>
                       send_batches data_list (i + 100) (sent_count + length batch) w2
                   | (Inl send_err, w2) \<Rightarrow>
                       if is_OSError send_err
                       then (Inr False, print_msg (MsgSocketSendError send_err) w2)
                       else (Inl send_err, w2)))
      else (Inr True, print_msg (MsgSent sent_count) w))"
  by pat_completeness auto
termination
  by (relation "measure (\<lambda>(data_list, i, sent_count, w). length data_list - i)") auto

declare send_batches.simps [simp del]

text \<open>
  \<open>send_to_logstash\<close> (lines 27 to 74). Leaving the \<open>with\<close> block closes the socket,
  on a return as on an exception; \<open>except socket.error\<close> and \<open>except Exception\<close> turn
  every exception into the result \<open>False\<close>.
\<close>

definition send_to_logstash :: "pystr \<Rightarrow> int \<Rightarrow> pyval list \<Rightarrow> world \<Rightarrow> (exn + bool) \<times> world" where
  "send_to_logstash host port data_list w =
     (if data_list = [] then (Inr True, print_msg MsgNoData w)
      else
        (case (case create_connection host port w of
                 (Inl e, w1) \<Rightarrow> (Inl e, w1)
               | (Inr sock, w1) \<Rightarrow>
                   (case send_batches data_list 0 0 (print_msg (MsgConnected host port) w1) of
                      (r, w2) \<Rightarrow> (r, sock_close w2))) of
           (Inr b, w3) \<Rightarrow> (Inr b, w3)
         | (Inl e, w3) \<Rightarrow>
             if is_OSError e then (Inr False, print_msg (MsgConnectFailed host port e) w3)
             else (Inr False, print_msg (MsgUnexpected e) w3)))"

section \<open>Reading a file\<close>

text \<open>Truth value testing, as \<open>if parsed_log:\<close> does it.\<close>

fun truthy :: "pyval \<Rightarrow> bool" where
  "truthy (PStr s) = (s \<noteq> [])"
| "truthy (PDict kvs) = (kvs \<noteq> [])"
| "truthy PObject = True"

text \<open>The loop \<open>for line in f\<close> (lines 82 to 85) over the lines the iterator yields.\<close>

fun parse_lines :: "pystr list \<Rightarrow> pyval list \<Rightarrow> pyval list" where
  "parse_lines [] processed_data = processed_data"
| "parse_lines (line # rest) processed_data =
     (case log_parser line of
        None \<Rightarrow> parse_lines rest processed_data
      | Some parsed_log \<Rightarrow>
          if truthy parsed_log then parse_lines rest (processed_data @ [parsed_log])
          else parse_lines rest processed_data)"

text \<open>
  The \<open>try\<close> block of \<open>process_log_file\<close>: the exception that ended it, if any, and
  \<open>processed_data\<close> as it is at that moment.
\<close>

definition read_file :: "file_state \<Rightarrow> exn option \<times> pyval list" where
  "read_file f =
     (case f of
        OpenFails e \<Rightarrow> (Some e, [])
      | Readable lines None \<Rightarrow> (None, parse_lines lines [])
      | Readable lines (Some (k, e)) \<Rightarrow>
          if k \<le> length lines then (Some e, parse_lines (take k lines) [])
          else (None, parse_lines lines []))"

text \<open>
  \<open>process_log_file\<close> (lines 76 to 90). The two handlers print the path; an exception
  raised by that print is raised inside an \<open>except\<close> clause, where no handler of the
  same \<open>try\<close> catches it, so it leaves the function.
\<close>

definition process_log_file :: "pystr \<Rightarrow> world \<Rightarrow> (exn + pyval list) \<times> world" where
  "process_log_file filepath w =
     (case read_file (fs_open w filepath) of
        (None, processed_data) \<Rightarrow> (Inr processed_data, w)
      | (Some e, processed_data) \<Rightarrow>
          if e = FileNotFoundError
          then (case print_path (MsgFileNotFound filepath) filepath w of
                  (Inl print_err, w1) \<Rightarrow> (Inl print_err, w1)
                | (Inr u, w1) \<Rightarrow> (Inr processed_data, w1))
          else (case print_path (MsgReadError filepath e) filepath w of
                  (Inl print_err, w1) \<Rightarrow> (Inl print_err, w1)
                | (Inr u, w1) \<Rightarrow> (Inr processed_data, w1)))"

section \<open>The orchestrator\<close>

text \<open>\<open>os.path.join\<close> of two components, on POSIX.\<close>

definition path_join :: "pystr \<Rightarrow> pystr \<Rightarrow> pystr" where
  "path_join a b =
     (if b \<noteq> [] \<and> hd b = 47 then b
      else if a = [] \<or> last a = 47 then a @ b
      else a @ [47] @ b)"

text \<open>The two nested loops over \<open>os.walk\<close> (lines 127 to 133).\<close>

fun add_filenames :: "pystr \<Rightarrow> pystr list \<Rightarrow> pystr list \<Rightarrow> pystr list" where
  "add_filenames dirpath [] all_files = all_files"
| "add_filenames dirpath (filename # rest) all_files =
     add_filenames dirpath rest (all_files @ [path_join dirpath filename])"

fun collect_files :: "(pystr \<times> pystr list \<times> pystr list) list \<Rightarrow> pystr list \<Rightarrow> pystr list" where
  "collect_files [] all_files = all_files"
| "collect_files ((dirpath, dirnames, filenames) # rest) all_files =
     collect_files rest (add_filenames dirpath filenames all_files)"

text \<open>
  The processing loop (lines 146 to 153). The percentage it prints is computed in floating
  point and only printed; the message keeps the two counters.
\<close>

fun process_all :: "pystr list \<Rightarrow> pyval list \<Rightarrow> nat \<Rightarrow> nat \<Rightarrow> world \<Rightarrow> (exn + pyval list) \<times> world" where
  "process_all [] data_to_send processed_count total_files w = (Inr data_to_send, w)"
| "process_all (log_file # rest) data_to_send processed_count total_files w =
     (case process_log_file log_file w of
        (Inl e, w1) \<Rightarrow> (Inl e, w1)
      | (Inr recs, w1) \<Rightarrow>
          process_all rest (data_to_send @ recs) (processed_count + 1) total_files
            (print_msg (MsgProgress (processed_count + 1) total_files) w1))"

definition RECONNECT_DELAY_SECONDS :: nat where
  "RECONNECT_DELAY_SECONDS = 5"

text \<open>
  The retry loop (lines 167 to 172). It has no bound, so it is a partial function: the
  value \<open>None\<close> is a run that never leaves the loop.
\<close>

partial_function (option) send_until_success ::
  "pystr \<Rightarrow> int \<Rightarrow> pyval list \<Rightarrow> world \<Rightarrow> ((exn + unit) \<times> world) option" where
  "send_until_success host port data_to_send w =
     (let r = send_to_logstash host port data_to_send w
      in case fst r of
           Inl e \<Rightarrow> Some (Inl e, snd r)
         | Inr success \<Rightarrow>
             if success then Some (Inr (), snd r)
             else send_until_success host port data_to_send
                    (sleep RECONNECT_DELAY_SECONDS
                       (print_msg (MsgWillRetry RECONNECT_DELAY_SECONDS) (snd r))))"

record args =
  log_folder :: pystr
  host :: pystr
  port :: int

definition main :: "args \<Rightarrow> world \<Rightarrow> ((exn + unit) \<times> world) option" where
  "main a w =
     (if \<not> fs_isdir w (log_folder a)
      then (case print_path (MsgFolderNotFound (log_folder a)) (log_folder a) w of
              (Inl e, w1) \<Rightarrow> Some (Inl e, w1)
            | (Inr u, w1) \<Rightarrow> Some (Inr (), print_msg MsgProvideValidPath w1))
      else
        (case print_path (MsgScanning (log_folder a)) (log_folder a) w of
           (Inl e, w1) \<Rightarrow> Some (Inl e, w1)
         | (Inr u, w1) \<Rightarrow>
             (let all_files = collect_files (fs_walk w1 (log_folder a)) []
              in if all_files = []
                 then Some (print_path (MsgNoFiles (log_folder a)) (log_folder a) w1)
                 else
                   (let total_files = length all_files;
                        w2 = print_msg (MsgFound total_files) w1
                    in case process_all all_files [] 0 total_files w2 of
                         (Inl e, w3) \<Rightarrow> Some (Inl e, w3)
                       | (Inr data_to_send, w3) \<Rightarrow>
                           (let w4 = print_msg MsgProcessingComplete w3
                            in if data_to_send = [] then Some (Inr (), print_msg MsgNoLines w4)
                               else
                                 (case send_until_success (host a) (port a) data_to_send
                                         (print_msg (MsgPrepared (length data_to_send)) w4) of
                                    None \<Rightarrow> None
                                  | Some (Inl e, w5) \<Rightarrow> Some (Inl e, w5)
                                  | Some (Inr u, w5) \<Rightarrow>
                                      Some (Inr (), print_msg MsgComplete w5)))))))"

section \<open>Observations\<close>

text \<open>
  What the statements below read off a run. \<open>json_line d\<close> is the line the sender
  writes for \<open>d\<close>: its JSON text and a newline (nothing when \<open>d\<close> has no JSON text).
  The text is ASCII, so its UTF-8 bytes are its code points.
\<close>

definition json_line :: "pyval \<Rightarrow> pystr" where
  "json_line d = (case json_dumps d of Inr s \<Rightarrow> s @ [10] | Inl e \<Rightarrow> [])"


text \<open>The buffers handed to \<open>sendall\<close>, in order.\<close>

fun sent_buffers :: "event list \<Rightarrow> bytes list" where
  "sent_buffers [] = []"
| "sent_buffers (SendAll buf outcome # es) = buf # sent_buffers es"
| "sent_buffers (e # es) = sent_buffers es"

text \<open>The outcomes of the network calls (connection attempts and writes), in order.\<close>

fun net_outcomes :: "event list \<Rightarrow> exn option list" where
  "net_outcomes [] = []"
| "net_outcomes (Connect h p outcome # es) = outcome # net_outcomes es"
| "net_outcomes (SendAll buf outcome # es) = outcome # net_outcomes es"
| "net_outcomes (e # es) = net_outcomes es"


text \<open>
  A world to run examples in: no directory, no file, an endpoint that accepts every
  connection and every write, and nothing done yet.
\<close>

definition accepting_world :: world where
  "accepting_world =
     \<lparr>fs_isdir = (\<lambda>p. False), fs_walk = (\<lambda>p. []),
      fs_open = (\<lambda>p. OpenFails FileNotFoundError),
      net_plan = (\<lambda>k. None), net_calls = 0, trace = []\<rparr>"

text \<open>
  The directory of the example: a folder \<open>logs\<close> that holds the two files \<open>a.txt\<close>
  (lines \<open>foo\<close>, an empty line, \<open>bar\<close> between blanks) and \<open>b.txt\<close> (line \<open>baz\<close>),
  each line with its line end. \<open>listing\<close> is the order in which \<open>os.walk\<close> lists the
  two names: the order \<open>os.scandir\<close> returns them in, which depends on the file system.
\<close>

definition two_file_world :: "pystr list \<Rightarrow> world" where
  "two_file_world listing =
     \<lparr>fs_isdir = (\<lambda>p. p = py ''logs''),
      fs_walk = (\<lambda>p. if p = py ''logs'' then [(py ''logs'', [], listing)] else []),
      fs_open = (\<lambda>p. if p = py ''logs/a.txt''
                       then Readable [py ''foo'' @ [10], [10], py ''  bar  '' @ [10]] None
                     else if p = py ''logs/b.txt'' then Readable [py ''baz'' @ [10]] None
                     else OpenFails FileNotFoundError),
      net_plan = (\<lambda>k. None), net_calls = 0, trace = []\<rparr>"

section \<open>Properties of trimming\<close>

lemma rev_dropWhile_split:
  "rev (dropWhile P (rev xs)) @ rev (takeWhile P (rev xs)) = xs"
proof -
  have "rev (takeWhile P (rev xs) @ dropWhile P (rev xs)) = xs"
    by (simp only: takeWhile_dropWhile_id rev_rev_ident)
  then show ?thesis by (simp only: rev_append)
qed

lemma dropWhile_all_iff: "(\<forall>c \<in> set (dropWhile P xs). P c) \<longleftrightarrow> (\<forall>c \<in> set xs. P c)"
  by (induction xs) auto

lemma hd_rev_dropWhile_rev:
  assumes "dropWhile P (rev xs) \<noteq> []"
  shows "hd (rev (dropWhile P (rev xs))) = hd xs"
proof -
  have "hd xs = hd (rev (dropWhile P (rev xs)) @ rev (takeWhile P (rev xs)))"
    by (simp only: rev_dropWhile_split)
  also have "\<dots> = hd (rev (dropWhile P (rev xs)))"
    using assms by (simp only: hd_append2 rev_is_Nil_conv not_False_eq_True)
  finally show ?thesis by simp
qed

lemma py_strip_unfold: "py_strip s = rev (dropWhile isspace (rev (dropWhile isspace s)))"
  by (simp only: py_strip_def py_rstrip_def py_lstrip_def)

lemma py_strip_empty_iff: "py_strip s = [] \<longleftrightarrow> (\<forall>c \<in> set s. isspace c)"
proof -
  have "py_strip s = [] \<longleftrightarrow> (\<forall>c \<in> set (rev (dropWhile isspace s)). isspace c)"
    by (simp only: py_strip_unfold rev_is_Nil_conv dropWhile_eq_Nil_conv)
  also have "\<dots> \<longleftrightarrow> (\<forall>c \<in> set (dropWhile isspace s). isspace c)"
    by (simp only: set_rev)
  also have "\<dots> \<longleftrightarrow> (\<forall>c \<in> set s. isspace c)"
    by (rule dropWhile_all_iff)
  finally show ?thesis .
qed

lemma py_strip_decomp:
  "\<exists>pre suf. s = pre @ py_strip s @ suf \<and> (\<forall>c \<in> set pre. isspace c) \<and> (\<forall>c \<in> set suf. isspace c)"
proof -
  let ?l = "dropWhile isspace s"
  let ?pre = "takeWhile isspace s"
  let ?suf = "rev (takeWhile isspace (rev ?l))"
  have "s = ?pre @ ?l" by simp
  also have "?l = py_strip s @ ?suf"
    by (simp only: py_strip_unfold rev_dropWhile_split)
  finally have "s = ?pre @ py_strip s @ ?suf" .
  moreover have "\<forall>c \<in> set ?pre. isspace c" by (auto dest: set_takeWhileD)
  moreover have "\<forall>c \<in> set ?suf. isspace c" by (auto dest: set_takeWhileD)
  ultimately show ?thesis by blast
qed

lemma py_strip_ends:
  assumes "py_strip s \<noteq> []"
  shows "\<not> isspace (hd (py_strip s))" and "\<not> isspace (last (py_strip s))"
proof -
  let ?l = "dropWhile isspace s"
  let ?r = "dropWhile isspace (rev ?l)"
  from assms have r: "?r \<noteq> []" by (simp add: py_strip_unfold)
  then have "\<not> isspace (hd ?r)" by (rule hd_dropWhile)
  with r show "\<not> isspace (last (py_strip s))"
    by (simp add: py_strip_unfold last_rev)
  from r have l: "?l \<noteq> []" by (cases "?l = []") simp_all
  then have "\<not> isspace (hd ?l)" by (rule hd_dropWhile)
  with r show "\<not> isspace (hd (py_strip s))"
    by (simp add: py_strip_unfold hd_rev_dropWhile_rev)
qed

lemma py_strip_fixed:
  assumes "t \<noteq> []" and "\<not> isspace (hd t)" and "\<not> isspace (last t)"
  shows "py_strip t = t"
proof -
  from assms have 1: "dropWhile isspace t = t"
    by (simp add: dropWhile_eq_self_iff)
  from assms have 2: "dropWhile isspace (rev t) = rev t"
    by (simp add: dropWhile_eq_self_iff hd_rev)
  show ?thesis by (simp only: py_strip_unfold 1 2 rev_rev_ident)
qed

lemma py_strip_idem: "py_strip (py_strip s) = py_strip s"
proof (cases "py_strip s = []")
  case True
  have "py_strip [] = []" by (simp add: py_strip_unfold)
  with True show ?thesis by simp
next
  case False
  then show ?thesis by (intro py_strip_fixed py_strip_ends)
qed

section \<open>Properties of reading a file\<close>

lemma parse_lines_acc: "parse_lines ls acc = acc @ parse_lines ls []"
proof (induction ls arbitrary: acc)
  case Nil
  then show ?case by simp
next
  case (Cons l ls)
  show ?case
  proof (cases "log_parser l")
    case None
    with Cons.IH [of acc] show ?thesis by simp
  next
    case (Some r)
    with Cons.IH [of "acc @ [r]"] Cons.IH [of "[r]"] Cons.IH [of acc] show ?thesis by simp
  qed
qed

lemma parse_lines_append: "parse_lines (xs @ ys) acc = parse_lines ys (parse_lines xs acc)"
  by (induction xs arbitrary: acc) (auto split: option.splits)

lemma parse_lines_take_prefix:
  "parse_lines ls [] = parse_lines (take k ls) [] @ parse_lines (drop k ls) []"
proof -
  have "parse_lines (take k ls @ drop k ls) [] = parse_lines (drop k ls) (parse_lines (take k ls) [])"
    by (rule parse_lines_append)
  also have "\<dots> = parse_lines (take k ls) [] @ parse_lines (drop k ls) []"
    by (rule parse_lines_acc)
  finally show ?thesis by simp
qed

lemma log_parser_truthy: "log_parser line = Some r \<Longrightarrow> truthy r"
  by (auto simp: log_parser_def Let_def split: if_splits)

lemma parse_lines_map_filter: "parse_lines ls acc = acc @ List.map_filter log_parser ls"
  by (induction ls arbitrary: acc)
     (auto simp: List.map_filter_simps log_parser_truthy split: option.splits)

lemma log_parser_shape:
  "log_parser line = Some r \<Longrightarrow> r = PDict [(py ''raw_content'', PStr (py_strip line))]"
  by (auto simp: log_parser_def Let_def split: if_splits)

lemma parse_lines_shape:
  "r \<in> set (parse_lines ls []) \<Longrightarrow> \<exists>line \<in> set ls. log_parser line = Some r"
  by (auto simp: parse_lines_map_filter [of ls "[]"] List.map_filter_def)

lemma read_file_parsed:
  "read_file f = (ex, recs) \<Longrightarrow> \<forall>r \<in> set recs. \<exists>line. log_parser line = Some r"
proof -
  assume "read_file f = (ex, recs)"
  then have "\<exists>ls. recs = parse_lines ls []"
    by (auto simp: read_file_def split: file_state.splits option.splits if_splits
             intro: exI [of _ "[]"])
  then show ?thesis by (auto dest: parse_lines_shape)
qed

lemma print_path_ok: "encode_utf8 path = Inr b \<Longrightarrow> print_path m path w = (Inr (), print_msg m w)"
  by (simp add: print_path_def)

lemma print_path_raises: "encode_utf8 path = Inl e \<Longrightarrow> print_path m path w = (Inl e, w)"
  by (simp add: print_path_def)

lemma process_log_file_parsed:
  assumes "process_log_file f w = (Inr recs, w')"
  shows "\<forall>r \<in> set recs. \<exists>line. log_parser line = Some r"
proof -
  obtain ex recs' where rf: "read_file (fs_open w f) = (ex, recs')"
    by (cases "read_file (fs_open w f)")
  with assms have "recs = recs'"
    by (auto simp: process_log_file_def split: option.splits if_splits prod.splits sum.splits)
  with read_file_parsed [OF rf] show ?thesis by simp
qed

lemma process_log_file_printable:
  assumes "encode_utf8 f = Inr b"
  shows "process_log_file f w =
    (case read_file (fs_open w f) of
       (None, processed_data) \<Rightarrow> (Inr processed_data, w)
     | (Some e, processed_data) \<Rightarrow>
         (Inr processed_data,
          print_msg (if e = FileNotFoundError then MsgFileNotFound f else MsgReadError f e) w))"
  by (simp add: process_log_file_def print_path_ok [OF assms] split: prod.splits option.splits)

lemma process_log_file_readable:
  "fs_open w f = Readable lines None \<Longrightarrow> process_log_file f w = (Inr (parse_lines lines []), w)"
  by (simp add: process_log_file_def read_file_def)

lemma process_all_parsed:
  assumes "process_all files acc n tot w = (Inr data, w')"
    and "\<forall>r \<in> set acc. \<exists>line. log_parser line = Some r"
  shows "\<forall>r \<in> set data. \<exists>line. log_parser line = Some r"
  using assms
proof (induction files arbitrary: acc n w)
  case Nil
  then show ?case by auto
next
  case (Cons f files)
  obtain r1 w1 where p: "process_log_file f w = (r1, w1)" by (cases "process_log_file f w")
  show ?case
  proof (cases r1)
    case (Inl e)
    with Cons.prems(1) p show ?thesis by simp
  next
    case (Inr recs)
    with p have "\<forall>r \<in> set recs. \<exists>line. log_parser line = Some r"
      by (auto dest: process_log_file_parsed)
    with Cons.prems(2) have "\<forall>r \<in> set (acc @ recs). \<exists>line. log_parser line = Some r"
      by auto
    moreover from Cons.prems(1) p Inr
    have "process_all files (acc @ recs) (n + 1) tot (print_msg (MsgProgress (n + 1) tot) w1) =
            (Inr data, w')"
      by simp
    ultimately show ?thesis by (rule Cons.IH [rotated])
  qed
qed

lemma process_log_file_open_fails_unprintable:
  assumes "fs_open w f = OpenFails err" and "encode_utf8 f = Inl e"
  shows "process_log_file f w = (Inl e, w)"
  by (simp add: process_log_file_def read_file_def assms(1) print_path_raises [OF assms(2)])

lemma process_log_file_read_error_unprintable:
  assumes "fs_open w f = Readable lines (Some (k, err))" and "k \<le> length lines"
    and "encode_utf8 f = Inl e"
  shows "process_log_file f w = (Inl e, w)"
  by (simp add: process_log_file_def read_file_def assms(1,2) print_path_raises [OF assms(3)])

lemma process_log_file_read_error_printable:
  assumes "fs_open w f = Readable lines (Some (k, err))" and "k \<le> length lines"
    and "encode_utf8 f = Inr b"
  shows "fst (process_log_file f w) = Inr (parse_lines (take k lines) [])"
  by (simp add: process_log_file_def read_file_def assms(1,2) print_path_ok [OF assms(3)])

lemma process_all_raises:
  "process_log_file f w = (Inl e, w1) \<Longrightarrow> process_all (f # rest) acc n tot w = (Inl e, w1)"
  by simp

lemma process_all_step:
  "process_log_file f w = (Inr recs, w1) \<Longrightarrow>
   process_all (f # rest) acc n tot w =
     process_all rest (acc @ recs) (n + 1) tot (print_msg (MsgProgress (n + 1) tot) w1)"
  by simp

lemma fs_open_print_msg [simp]: "fs_open (print_msg m w) = fs_open w"
  by (simp add: print_msg_def)

section \<open>Properties of the encoders\<close>

lemma sent_buffers_append: "sent_buffers (xs @ ys) = sent_buffers xs @ sent_buffers ys"
  by (induction xs rule: sent_buffers.induct) simp_all

lemma net_outcomes_append: "net_outcomes (xs @ ys) = net_outcomes xs @ net_outcomes ys"
  by (induction xs rule: net_outcomes.induct) simp_all












lemma json_line_Inr: "json_dumps d = Inr s \<Longrightarrow> json_line d = s @ [10]"
  by (simp add: json_line_def)



lemma serialize_batch_clean:
  "\<forall>d \<in> set batch. \<exists>s. json_dumps d = Inr s \<Longrightarrow>
   serialize_batch batch acc w = (Inr (acc @ concat (map json_line batch)), w)"
  by (induction batch arbitrary: acc) (auto simp: json_line_Inr)

lemma log_parser_json:
  "log_parser line = Some r \<Longrightarrow>
     json_dumps r = Inr ([123] @ encode_basestring_ascii (py ''raw_content'') @ [58, 32] @
                         encode_basestring_ascii (py_strip line) @ [125])"
  by (auto simp: log_parser_def Let_def split: if_splits)

section \<open>Properties of the batch loop\<close>

lemma sent_buffers_prints [simp]: "sent_buffers (map Print msgs) = []"
  by (induction msgs) simp_all

lemma net_outcomes_prints [simp]: "net_outcomes (map Print msgs) = []"
  by (induction msgs) simp_all








section \<open>Network failures\<close>











section \<open>Properties of the retry loop\<close>







section \<open>The example directory\<close>

lemma two_file_world_a_neq_b: "py ''logs/a.txt'' \<noteq> py ''logs/b.txt''"
  by (simp add: py_def)

lemma two_file_world_lines_a:
  "parse_lines [py ''foo'' @ [10], [10], py ''  bar  '' @ [10]] [] =
     [PDict [(py ''raw_content'', PStr (py ''foo''))],
      PDict [(py ''raw_content'', PStr (py ''bar''))]]"
proof -
  have "py_strip (py ''foo'' @ [10]) = py ''foo''" "py_strip [10] = []"
    "py_strip (py ''  bar  '' @ [10]) = py ''bar''"
    by (simp_all add: py_strip_unfold py_def isspace_def)
  moreover have "py ''foo'' \<noteq> []" "py ''bar'' \<noteq> []"
    by (simp_all add: py_def)
  ultimately show ?thesis
    by (simp add: log_parser_def)
qed

lemma two_file_world_lines_b:
  "parse_lines [py ''baz'' @ [10]] [] = [PDict [(py ''raw_content'', PStr (py ''baz''))]]"
proof -
  have "py_strip (py ''baz'' @ [10]) = py ''baz''"
    by (simp add: py_strip_unfold py_def isspace_def)
  moreover have "py ''baz'' \<noteq> []"
    by (simp add: py_def)
  ultimately show ?thesis
    by (simp add: log_parser_def)
qed

lemma two_file_world_file_a:
  assumes "fs_open w = fs_open (two_file_world listing)"
  shows "process_log_file (py ''logs/a.txt'') w =
    (Inr [PDict [(py ''raw_content'', PStr (py ''foo''))],
          PDict [(py ''raw_content'', PStr (py ''bar''))]], w)"
proof -
  have "fs_open w (py ''logs/a.txt'') =
      Readable [py ''foo'' @ [10], [10], py ''  bar  '' @ [10]] None"
    by (simp add: assms two_file_world_def)
  then have "process_log_file (py ''logs/a.txt'') w =
      (Inr (parse_lines [py ''foo'' @ [10], [10], py ''  bar  '' @ [10]] []), w)"
    by (rule process_log_file_readable)
  then show ?thesis by (simp only: two_file_world_lines_a)
qed

lemma two_file_world_file_b:
  assumes "fs_open w = fs_open (two_file_world listing)"
  shows "process_log_file (py ''logs/b.txt'') w =
    (Inr [PDict [(py ''raw_content'', PStr (py ''baz''))]], w)"
proof -
  have "fs_open w (py ''logs/b.txt'') = Readable [py ''baz'' @ [10]] None"
    using two_file_world_a_neq_b by (simp add: assms two_file_world_def)
  then have "process_log_file (py ''logs/b.txt'') w =
      (Inr (parse_lines [py ''baz'' @ [10]] []), w)"
    by (rule process_log_file_readable)
  then show ?thesis by (simp only: two_file_world_lines_b)
qed

section \<open>Claims about the parser\<close>

text \<open>
  C1. For every input line the parser returns skip (\<open>None\<close>) exactly when the line with
  leading and trailing whitespace removed is empty, which is the case exactly when the
  line consists of whitespace only; otherwise it returns the record whose single field
  \<open>raw_content\<close> is the trimmed line.
\<close>

theorem log_parser_skip_iff_blank:
  "(log_parser line = None \<longleftrightarrow> py_strip line = []) \<and>
   (py_strip line = [] \<longleftrightarrow> (\<forall>c \<in> set line. isspace c)) \<and>
   (py_strip line \<noteq> [] \<longrightarrow>
      log_parser line = Some (PDict [(py ''raw_content'', PStr (py_strip line))]))"
  by (simp add: log_parser_def Let_def py_strip_empty_iff)

theorem log_parser_skip_iff_blank_witness:
  "py_strip (py ''  bar  '' @ [10]) \<noteq> [] \<and>
   log_parser (py ''  bar  '' @ [10]) = Some (PDict [(py ''raw_content'', PStr (py ''bar''))]) \<and>
   isspace 32 \<and> isspace 9 \<and> isspace 10 \<and> log_parser [32, 9, 10] = None"
proof -
  have val: "py_strip (py ''  bar  '' @ [10]) = py ''bar''"
    by (simp add: py_strip_unfold py_def isspace_def)
  then have ne: "py_strip (py ''  bar  '' @ [10]) \<noteq> []"
    by (simp add: py_def)
  with log_parser_skip_iff_blank [of "py ''  bar  '' @ [10]"]
  have "log_parser (py ''  bar  '' @ [10]) =
          Some (PDict [(py ''raw_content'', PStr (py_strip (py ''  bar  '' @ [10])))])"
    by blast
  then have rec: "log_parser (py ''  bar  '' @ [10]) =
      Some (PDict [(py ''raw_content'', PStr (py ''bar''))])"
    by (simp only: val)
  have blank: "\<forall>c \<in> set [32, 9, 10]. isspace c"
    by (simp add: isspace_def)
  with log_parser_skip_iff_blank [of "[32, 9, 10]"] have "log_parser [32, 9, 10] = None"
    by blast
  moreover have "isspace 32 \<and> isspace 9 \<and> isspace 10"
    by (simp add: isspace_def)
  ultimately show ?thesis using ne rec by blast
qed

text \<open>
  C8. Parsing is idempotent on its own output: whenever the parser returns a record for a
  line, that record has the single field \<open>raw_content\<close>, and parsing the text held in
  that field returns an equal record.
\<close>

theorem log_parser_idempotent:
  "log_parser line = Some r \<Longrightarrow>
     \<exists>s. r = PDict [(py ''raw_content'', PStr s)] \<and> log_parser s = Some r"
proof -
  assume "log_parser line = Some r"
  then have ne: "py_strip line \<noteq> []"
    and r: "r = PDict [(py ''raw_content'', PStr (py_strip line))]"
    by (auto simp: log_parser_def Let_def split: if_splits)
  from ne have "log_parser (py_strip line) = Some r"
    by (simp add: log_parser_def Let_def py_strip_idem r)
  with r show ?thesis by blast
qed

theorem log_parser_idempotent_witness:
  "log_parser (py ''  bar  '' @ [10]) = Some (PDict [(py ''raw_content'', PStr (py ''bar''))]) \<and>
   log_parser (py ''bar'') = Some (PDict [(py ''raw_content'', PStr (py ''bar''))])"
proof -
  have val: "py_strip (py ''  bar  '' @ [10]) = py ''bar''"
    by (simp add: py_strip_unfold py_def isspace_def)
  have p: "log_parser (py ''  bar  '' @ [10]) =
      Some (PDict [(py ''raw_content'', PStr (py ''bar''))])"
    by (simp add: log_parser_def Let_def val) (simp add: py_def)
  from log_parser_idempotent [OF p]
  have "log_parser (py ''bar'') = Some (PDict [(py ''raw_content'', PStr (py ''bar''))])"
    by blast
  with p show ?thesis by blast
qed

section \<open>Claims about the sender\<close>



text \<open>
  C5. For the empty record list \<open>send_to_logstash\<close> returns success at once and prints
  only that there is nothing to send: no network call is made, so no connection is opened
  and nothing is written.
\<close>

theorem send_to_logstash_empty:
  "send_to_logstash h p [] w = (Inr True, w\<lparr>trace := trace w @ [Print MsgNoData]\<rparr>) \<and>
   net_calls (snd (send_to_logstash h p [] w)) = net_calls w \<and>
   net_outcomes (trace (snd (send_to_logstash h p [] w))) = net_outcomes (trace w) \<and>
   sent_buffers (trace (snd (send_to_logstash h p [] w))) = sent_buffers (trace w)"
  by (simp add: send_to_logstash_def print_msg_def net_outcomes_append sent_buffers_append)



text \<open>
  C10. Every record the parser returns has a JSON text, namely the object with the single
  key \<open>raw_content\<close> and the escaped trimmed line. So every record of a list the
  processing loop builds has a JSON text, and on any batch of that list the serialization
  loop takes the error branch for no record: it reports nothing and the batch text holds
  the line of every record of the batch.
\<close>

theorem parsed_records_serialize:
  "(log_parser line = Some r \<longrightarrow>
      json_dumps r = Inr ([123] @ encode_basestring_ascii (py ''raw_content'') @ [58, 32] @
                          encode_basestring_ascii (py_strip line) @ [125])) \<and>
   (process_all files [] n tot w = (Inr data, w') \<longrightarrow>
      (\<forall>r \<in> set data. \<exists>s. json_dumps r = Inr s) \<and>
      (\<forall>i acc w1. serialize_batch (take 100 (drop i data)) acc w1 =
         (Inr (acc @ concat (map json_line (take 100 (drop i data)))), w1)))"
proof (intro conjI impI)
  assume "log_parser line = Some r"
  then show "json_dumps r = Inr ([123] @ encode_basestring_ascii (py ''raw_content'') @ [58, 32] @
                          encode_basestring_ascii (py_strip line) @ [125])"
    by (rule log_parser_json)
next
  assume run: "process_all files [] n tot w = (Inr data, w')"
  have parsed: "\<forall>r \<in> set data. \<exists>line. log_parser line = Some r"
    using process_all_parsed [OF run] by simp
  show ser: "\<forall>r \<in> set data. \<exists>s. json_dumps r = Inr s"
  proof
    fix r
    assume "r \<in> set data"
    with parsed obtain line where "log_parser line = Some r" by blast
    then show "\<exists>s. json_dumps r = Inr s" by (auto dest: log_parser_json)
  qed
  show "\<forall>i acc w1. serialize_batch (take 100 (drop i data)) acc w1 =
            (Inr (acc @ concat (map json_line (take 100 (drop i data)))), w1)"
  proof (intro allI)
    fix i acc w1
    have "\<forall>r \<in> set (take 100 (drop i data)). \<exists>s. json_dumps r = Inr s"
      using ser by (meson in_set_takeD in_set_dropD)
    then show "serialize_batch (take 100 (drop i data)) acc w1 =
            (Inr (acc @ concat (map json_line (take 100 (drop i data)))), w1)"
      by (rule serialize_batch_clean)
  qed
qed

theorem parsed_records_serialize_witness:
  "log_parser (py ''  bar  '' @ [10]) = Some (PDict [(py ''raw_content'', PStr (py ''bar''))]) \<and>
   json_dumps (PDict [(py ''raw_content'', PStr (py ''bar''))]) =
     Inr ([123, 34] @ py ''raw_content'' @ [34, 58, 32, 34] @ py ''bar'' @ [34, 125]) \<and>
   fst (process_all [py ''a.log''] [] 0 1
          (accepting_world\<lparr>fs_open := \<lambda>p. Readable [py ''  bar  '' @ [10]] None\<rparr>)) =
     Inr [PDict [(py ''raw_content'', PStr (py ''bar''))]] \<and>
   serialize_batch (take 100 (drop 0 [PDict [(py ''raw_content'', PStr (py ''bar''))]])) []
       accepting_world =
     (Inr (concat (map json_line
        (take 100 (drop 0 [PDict [(py ''raw_content'', PStr (py ''bar''))]])))), accepting_world)"
proof -
  let ?line = "py ''  bar  '' @ [10]"
  let ?r = "PDict [(py ''raw_content'', PStr (py ''bar''))]"
  let ?w = "accepting_world\<lparr>fs_open := \<lambda>p. Readable [?line] None\<rparr>"
  let ?X = "process_all [py ''a.log''] [] 0 1 ?w"
  have val: "py_strip ?line = py ''bar''"
    by (simp add: py_strip_unfold py_def isspace_def)
  have p: "log_parser ?line = Some ?r"
    by (simp add: log_parser_def Let_def val) (simp add: py_def)
  have "fs_open ?w (py ''a.log'') = Readable [?line] None"
    by simp
  then have "process_log_file (py ''a.log'') ?w = (Inr (parse_lines [?line] []), ?w)"
    by (rule process_log_file_readable)
  then have run: "?X = (Inr [?r], snd ?X)"
    by (simp add: p)
  note inst = parsed_records_serialize [of ?line ?r "[py ''a.log'']" 0 1 ?w "[?r]" "snd ?X"]
  from inst p have "json_dumps ?r =
      Inr ([123] @ encode_basestring_ascii (py ''raw_content'') @ [58, 32] @
           encode_basestring_ascii (py_strip ?line) @ [125])"
    by blast
  moreover have "encode_basestring_ascii (py ''raw_content'') = [34] @ py ''raw_content'' @ [34]"
    by (simp add: encode_basestring_ascii_def escape_char_def py_def)
  moreover have "encode_basestring_ascii (py ''bar'') = [34] @ py ''bar'' @ [34]"
    by (simp add: encode_basestring_ascii_def escape_char_def py_def)
  ultimately have j: "json_dumps ?r =
      Inr ([123, 34] @ py ''raw_content'' @ [34, 58, 32, 34] @ py ''bar'' @ [34, 125])"
    by (simp only: val) simp
  from inst run have
    s: "\<forall>i acc w1. serialize_batch (take 100 (drop i [?r])) acc w1 =
            (Inr (acc @ concat (map json_line (take 100 (drop i [?r])))), w1)"
    by blast
  from s have "serialize_batch (take 100 (drop 0 [?r])) [] accepting_world =
      (Inr ([] @ concat (map json_line (take 100 (drop 0 [?r])))), accepting_world)"
    by blast
  then have b: "serialize_batch (take 100 (drop 0 [?r])) [] accepting_world =
      (Inr (concat (map json_line (take 100 (drop 0 [?r])))), accepting_world)"
    by (simp only: append_Nil)
  from run have f: "fst ?X = Inr [?r]"
    by (metis fst_conv)
  from p j f b show ?thesis by (intro conjI)
qed

section \<open>Claims about reading a file\<close>

text \<open>
  C4. The claim is that \<open>process_log_file\<close> raises nothing for any path and that a missing
  file is reported, gives the empty list and lets the run continue. The code does so when
  the path can be printed. For a missing file whose name holds a lone surrogate, the report
  itself raises \<open>UnicodeEncodeError\<close> inside the handler: the exception leaves
  \<open>process_log_file\<close>, and the processing loop ends with it before the next file.
\<close>

theorem process_log_file_unprintable_path_raises:
  "fs_open accepting_world (py ''logs/bad'' @ [0xDCFF] @ py ''.log'') = OpenFails FileNotFoundError \<and>
   process_log_file (py ''logs/bad'' @ [0xDCFF] @ py ''.log'') accepting_world =
     (Inl UnicodeEncodeError, accepting_world) \<and>
   process_all [py ''logs/bad'' @ [0xDCFF] @ py ''.log'', py ''logs/b.log''] [] 0 2 accepting_world =
     (Inl UnicodeEncodeError, accepting_world)"
proof -
  let ?bad = "py ''logs/bad'' @ [0xDCFF] @ py ''.log''"
  have enc: "encode_utf8 ?bad = Inl UnicodeEncodeError"
    by (simp add: py_def utf8_char_def)
  have missing: "fs_open accepting_world ?bad = OpenFails FileNotFoundError"
    by (simp add: accepting_world_def)
  from missing enc
  have raises: "process_log_file ?bad accepting_world = (Inl UnicodeEncodeError, accepting_world)"
    by (rule process_log_file_open_fails_unprintable)
  then have "process_all [?bad, py ''logs/b.log''] [] 0 2 accepting_world =
      (Inl UnicodeEncodeError, accepting_world)"
    by (rule process_all_raises)
  with missing raises show ?thesis by (intro conjI)
qed

text \<open>
  C9. The claim is that a read error after a successful open leaves the records of the
  lines read so far as the result. The code does so when the path can be printed: the
  same file, failing after its first line, gives the record of that line under the name
  \<open>logs/a.log\<close>. Under a name with a lone surrogate the report raises
  \<open>UnicodeEncodeError\<close> inside the handler and nothing is returned.
\<close>

theorem process_log_file_read_error_unprintable_path:
  "fst (process_log_file (py ''logs/a.log'')
     (accepting_world\<lparr>fs_open := \<lambda>p. Readable [py ''foo'' @ [10], [10], py ''bar'' @ [10]]
                                         (Some (1, OSError))\<rparr>)) =
     Inr [PDict [(py ''raw_content'', PStr (py ''foo''))]] \<and>
   fst (process_log_file (py ''logs/bad'' @ [0xDCFF] @ py ''.log'')
     (accepting_world\<lparr>fs_open := \<lambda>p. Readable [py ''foo'' @ [10], [10], py ''bar'' @ [10]]
                                         (Some (1, OSError))\<rparr>)) =
     Inl UnicodeEncodeError"
proof -
  let ?lines = "[py ''foo'' @ [10], [10], py ''bar'' @ [10]]"
  let ?w = "accepting_world\<lparr>fs_open := \<lambda>p. Readable ?lines (Some (1, OSError))\<rparr>"
  let ?bad = "py ''logs/bad'' @ [0xDCFF] @ py ''.log''"
  have opened: "fs_open ?w f = Readable ?lines (Some (1, OSError))" for f
    by simp
  have k: "1 \<le> length ?lines"
    by simp
  have bad: "encode_utf8 ?bad = Inl UnicodeEncodeError"
    by (simp add: py_def utf8_char_def)
  have good: "encode_utf8 (py ''logs/a.log'') = Inr (py ''logs/a.log'')"
    by (simp add: py_def utf8_char_def)
  have "fst (process_log_file (py ''logs/a.log'') ?w) = Inr (parse_lines (take 1 ?lines) [])"
    using opened k good by (rule process_log_file_read_error_printable)
  also have "parse_lines (take 1 ?lines) [] = [PDict [(py ''raw_content'', PStr (py ''foo''))]]"
    by (simp add: log_parser_def py_strip_unfold py_def isspace_def)
  finally have first: "fst (process_log_file (py ''logs/a.log'') ?w) =
      Inr [PDict [(py ''raw_content'', PStr (py ''foo''))]]" .
  have "process_log_file ?bad ?w = (Inl UnicodeEncodeError, ?w)"
    using opened k bad by (rule process_log_file_read_error_unprintable)
  then have "fst (process_log_file ?bad ?w) = Inl UnicodeEncodeError"
    by (simp only: fst_conv)
  with first show ?thesis by (intro conjI)
qed

section \<open>Claims about the orchestrator\<close>



text \<open>
  C7. As stated the claim fails: the code lists the files in the order \<open>os.walk\<close> yields
  them and sorts nothing, so when the directory lists \<open>b.txt\<close> before \<open>a.txt\<close> the
  unified record sequence is \<open>baz, foo, bar\<close>.
\<close>

theorem unified_records_listing_order_counterexample:
  "fst (process_all
          (collect_files (fs_walk (two_file_world [py ''b.txt'', py ''a.txt'']) (py ''logs'')) [])
          [] 0 2 (two_file_world [py ''b.txt'', py ''a.txt''])) =
     Inr [PDict [(py ''raw_content'', PStr (py ''baz''))],
          PDict [(py ''raw_content'', PStr (py ''foo''))],
          PDict [(py ''raw_content'', PStr (py ''bar''))]] \<and>
   fst (process_all
          (collect_files (fs_walk (two_file_world [py ''b.txt'', py ''a.txt'']) (py ''logs'')) [])
          [] 0 2 (two_file_world [py ''b.txt'', py ''a.txt''])) \<noteq>
     Inr [PDict [(py ''raw_content'', PStr (py ''foo''))],
          PDict [(py ''raw_content'', PStr (py ''bar''))],
          PDict [(py ''raw_content'', PStr (py ''baz''))]]"
proof -
  let ?w = "two_file_world [py ''b.txt'', py ''a.txt'']"
  have files: "collect_files (fs_walk ?w (py ''logs'')) [] = [py ''logs/b.txt'', py ''logs/a.txt'']"
    by (simp add: two_file_world_def path_join_def py_def)
  have run: "fst (process_all [py ''logs/b.txt'', py ''logs/a.txt''] [] 0 2 ?w) =
     Inr [PDict [(py ''raw_content'', PStr (py ''baz''))],
          PDict [(py ''raw_content'', PStr (py ''foo''))],
          PDict [(py ''raw_content'', PStr (py ''bar''))]]"
    by (simp add: two_file_world_file_a two_file_world_file_b two_file_world_a_neq_b)
  have "py ''baz'' \<noteq> py ''foo''"
    by (simp add: py_def)
  with run show ?thesis
    by (simp only: files) simp
qed

text \<open>
  C7, amended. When the directory lists \<open>a.txt\<close> before \<open>b.txt\<close>, the unified record
  sequence is exactly \<open>foo, bar, baz\<close>: three records, the records of \<open>a.txt\<close> first,
  the lines of each file in their order, the blank line skipped and the surrounding
  whitespace trimmed.
\<close>

theorem unified_records_in_listing_order:
  "collect_files (fs_walk (two_file_world [py ''a.txt'', py ''b.txt'']) (py ''logs'')) [] =
     [py ''logs/a.txt'', py ''logs/b.txt''] \<and>
   fst (process_all
          (collect_files (fs_walk (two_file_world [py ''a.txt'', py ''b.txt'']) (py ''logs'')) [])
          [] 0 2 (two_file_world [py ''a.txt'', py ''b.txt''])) =
     Inr [PDict [(py ''raw_content'', PStr (py ''foo''))],
          PDict [(py ''raw_content'', PStr (py ''bar''))],
          PDict [(py ''raw_content'', PStr (py ''baz''))]]"
proof -
  let ?w = "two_file_world [py ''a.txt'', py ''b.txt'']"
  have files: "collect_files (fs_walk ?w (py ''logs'')) [] = [py ''logs/a.txt'', py ''logs/b.txt'']"
    by (simp add: two_file_world_def path_join_def py_def)
  have run: "fst (process_all [py ''logs/a.txt'', py ''logs/b.txt''] [] 0 2 ?w) =
     Inr [PDict [(py ''raw_content'', PStr (py ''foo''))],
          PDict [(py ''raw_content'', PStr (py ''bar''))],
          PDict [(py ''raw_content'', PStr (py ''baz''))]]"
    by (simp add: two_file_world_file_a two_file_world_file_b two_file_world_a_neq_b)
  with files show ?thesis
    by (simp only: files)
qed


end
